theory Spec2Isabelle
  imports Complex_Main "HOL-Library.Word"
begin

section \<open>ShadowScanner: the chi-square LSB estimator\<close>

text \<open>
  A shallow embedding of \<^verbatim>\<open>src/services/steganalysisService.ts\<close> and of the status
  classification in \<^verbatim>\<open>handleAnalyzeClick\<close> (\<^verbatim>\<open>src/App.tsx\<close>).

  \<^item> The pixel buffer \<^verbatim>\<open>imageData.data\<close> is a \<^verbatim>\<open>Uint8ClampedArray\<close>: a list of
    8-bit words. A byte that is read becomes a number, here \<open>unat\<close> of the word.
  \<^item> The two histograms are \<^verbatim>\<open>number[]\<close> arrays of length 255 holding counts: lists of
    naturals.
  \<^item> The remaining \<^verbatim>\<open>number\<close> values (the statistic, the probability) are modelled as
    reals: \<open>exp\<close>, \<open>sqrt\<close> and the arithmetic are the exact ones, without the
    rounding of IEEE doubles. The exact value of a result (such as \<open>erf\<close> at 0)
    and the order of two results a rounding error apart are therefore the model's, not
    the code's; the theorems of the last section rely only on bounds whose margin is far
    above the rounding error.
  \<^item> JavaScript does not raise on an index outside an array (the read yields
    \<^verbatim>\<open>undefined\<close>) nor on a division by zero (it yields \<^verbatim>\<open>NaN\<close> or
    \<^verbatim>\<open>Infinity\<close>). The model makes both visible: every indexed access and every
    division by a computed divisor is checked and yields an \<open>error\<close> where
    JavaScript would leave the numbers.
\<close>

subsection \<open>Data\<close>

datatype ResultStatus = Clean | Indeterminate | Suspicious

datatype error = OutOfBounds | NotFinite

type_synonym byte = "8 word"

text \<open>\<^verbatim>\<open>a[i]\<close> as a read, checked.\<close>

definition rd :: "'a list \<Rightarrow> nat \<Rightarrow> error + 'a" where
  "rd xs i = (if i < length xs then Inr (xs ! i) else Inl OutOfBounds)"

text \<open>\<^verbatim>\<open>a[i]++\<close> on an array of counts, checked.\<close>

definition incr :: "nat list \<Rightarrow> nat \<Rightarrow> error + nat list" where
  "incr xs i = (if i < length xs then Inr (xs[i := xs ! i + 1]) else Inl OutOfBounds)"

text \<open>\<^verbatim>\<open>a / b\<close> with a computed divisor, checked.\<close>

definition fdiv :: "real \<Rightarrow> real \<Rightarrow> error + real" where
  "fdiv a b = (if b = 0 then Inl NotFinite else Inr (a / b))"

subsection \<open>The error function and the chi-square CDF\<close>

text \<open>
  \<^verbatim>\<open>erf\<close>, lines 8-23. The divisor \<open>1 + p * absX\<close> is at least 1
  (lemma \<open>erf_divisor_pos\<close> below), so the division is the plain one.
\<close>

definition erf :: "real \<Rightarrow> real" where
  "erf x =
     (let a1 = 0.254829592;
          a2 = - 0.284496736;
          a3 = 1.421413741;
          a4 = - 1.453152027;
          a5 = 1.061405429;
          p = 0.3275911;
          sign = (if x \<ge> 0 then 1 else - 1);
          absX = \<bar>x\<bar>;
          t = 1.0 / (1.0 + p * absX);
          y = 1.0 - (((((a5 * t + a4) * t) + a3) * t + a2) * t + a1) * t * exp (- absX * absX)
      in sign * y)"

text \<open>\<^verbatim>\<open>chiSquareCdf\<close>, lines 31-34. The guard keeps \<open>sqrt\<close> on non-negative numbers.\<close>

definition chiSquareCdf :: "real \<Rightarrow> real" where
  "chiSquareCdf chiSquared = (if chiSquared < 0 then 0 else erf (sqrt (chiSquared / 2)))"

subsection \<open>The pair-counting loops of \<^verbatim>\<open>analyzeLSB\<close>\<close>

text \<open>
  The body of the first loop (lines 60-71), for the pair of byte indices it is given:
  the loop calls it with \<open>i\<close> and \<open>i + 4\<close>.
\<close>

definition observedStep :: "byte list \<Rightarrow> nat \<Rightarrow> nat \<Rightarrow> nat list \<Rightarrow> error + nat list" where
  "observedStep pixelData i j observedFrequencies =
     (case rd pixelData i of
        Inl e \<Rightarrow> Inl e
      | Inr b_i \<Rightarrow>
          (case rd pixelData j of
             Inl e \<Rightarrow> Inl e
           | Inr b_j \<Rightarrow>
               (let p_i = unat b_i; p_i_plus_1 = unat b_j
                in if p_i < 255 \<and> p_i > 0
                   then (if p_i_plus_1 > p_i
                         then incr observedFrequencies p_i
                         else Inr observedFrequencies)
                   else Inr observedFrequencies)))"

text \<open>
  The first loop, line 59: \<^verbatim>\<open>for (let i = 0; i < pixelData.length - 4; i += 8)\<close>.
  The bound \<^verbatim>\<open>pixelData.length - 4\<close> is negative for a buffer of fewer than 4 bytes,
  so the comparison is on integers.
\<close>

function observedLoop :: "byte list \<Rightarrow> nat \<Rightarrow> nat list \<Rightarrow> error + nat list" where
  "observedLoop pixelData i observedFrequencies =
     (if int i < int (length pixelData) - 4
      then (case observedStep pixelData i (i + 4) observedFrequencies of
              Inl e \<Rightarrow> Inl e
            | Inr observedFrequencies' \<Rightarrow> observedLoop pixelData (i + 8) observedFrequencies')
      else Inr observedFrequencies)"
  by pat_completeness auto
termination
  by (relation "measure (\<lambda>(pixelData, i, observedFrequencies). length pixelData - i)") auto

text \<open>The body of the second loop (lines 77-80).\<close>

definition totalStep :: "byte list \<Rightarrow> nat \<Rightarrow> nat list \<Rightarrow> error + nat list" where
  "totalStep pixelData i totalPairsPerCategory =
     (case rd pixelData i of
        Inl e \<Rightarrow> Inl e
      | Inr b_i \<Rightarrow>
          (let p_i = unat b_i
           in if p_i < 255 \<and> p_i > 0
              then incr totalPairsPerCategory p_i
              else Inr totalPairsPerCategory))"

text \<open>The second loop, line 76, with the header of the first.\<close>

function totalLoop :: "byte list \<Rightarrow> nat \<Rightarrow> nat list \<Rightarrow> error + nat list" where
  "totalLoop pixelData i totalPairsPerCategory =
     (if int i < int (length pixelData) - 4
      then (case totalStep pixelData i totalPairsPerCategory of
              Inl e \<Rightarrow> Inl e
            | Inr totalPairsPerCategory' \<Rightarrow> totalLoop pixelData (i + 8) totalPairsPerCategory')
      else Inr totalPairsPerCategory)"
  by pat_completeness auto
termination
  by (relation "measure (\<lambda>(pixelData, i, totalPairsPerCategory). length pixelData - i)") auto

text \<open>The two histograms as \<^verbatim>\<open>analyzeLSB\<close> builds them: \<^verbatim>\<open>new Array(255).fill(0)\<close>,
  then the loop from \<open>i = 0\<close>.\<close>

definition observedFrequenciesOf :: "byte list \<Rightarrow> error + nat list" where
  "observedFrequenciesOf pixelData = observedLoop pixelData 0 (replicate 255 0)"

definition totalPairsPerCategoryOf :: "byte list \<Rightarrow> error + nat list" where
  "totalPairsPerCategoryOf pixelData = totalLoop pixelData 0 (replicate 255 0)"

text \<open>
  The pairs of byte indices that the first loop examines, in order: the loop header of
  line 59 with the two indices read at lines 60 and 61. Lemma \<open>observedLoop_pairs\<close>
  below shows that the first loop is the run of its body over exactly this list.
\<close>

function pairIndices :: "nat \<Rightarrow> nat \<Rightarrow> (nat \<times> nat) list" where
  "pairIndices len i =
     (if int i < int len - 4 then (i, i + 4) # pairIndices len (i + 8) else [])"
  by pat_completeness auto
termination
  by (relation "measure (\<lambda>(len, i). len - i)") auto

fun runPairs :: "byte list \<Rightarrow> (nat \<times> nat) list \<Rightarrow> nat list \<Rightarrow> error + nat list" where
  "runPairs pixelData [] observedFrequencies = Inr observedFrequencies"
| "runPairs pixelData ((i, j) # ps) observedFrequencies =
     (case observedStep pixelData i j observedFrequencies of
        Inl e \<Rightarrow> Inl e
      | Inr observedFrequencies' \<Rightarrow> runPairs pixelData ps observedFrequencies')"

text \<open>The number of pairs that the loops scan: one per round.\<close>

definition numPairs :: "byte list \<Rightarrow> nat" where
  "numPairs pixelData = length (pairIndices (length pixelData) 0)"

text \<open>A byte index as a pixel index: four channel bytes per pixel.\<close>

definition pixelOf :: "nat \<times> nat \<Rightarrow> nat \<times> nat" where
  "pixelOf p = (fst p div 4, snd p div 4)"

definition pixelPairs :: "nat \<Rightarrow> (nat \<times> nat) list" where
  "pixelPairs len = map pixelOf (pairIndices len 0)"

subsection \<open>The statistic and the probability\<close>

text \<open>The body of the third loop (lines 87-100).\<close>

definition chiStep :: "nat list \<Rightarrow> nat list \<Rightarrow> nat \<Rightarrow> real \<Rightarrow> error + real" where
  "chiStep observedFrequencies totalPairsPerCategory i chiSquared =
     (case rd totalPairsPerCategory i of
        Inl e \<Rightarrow> Inl e
      | Inr totalPairs \<Rightarrow>
          if totalPairs > 0
          then (let expectedFrequency = real totalPairs / 2
                in case rd observedFrequencies i of
                     Inl e \<Rightarrow> Inl e
                   | Inr observed \<Rightarrow>
                       (let diff = real observed - expectedFrequency
                        in case fdiv (diff * diff) expectedFrequency of
                             Inl e \<Rightarrow> Inl e
                           | Inr chiSquared_i \<Rightarrow> Inr (chiSquared + chiSquared_i)))
          else Inr chiSquared)"

text \<open>The third loop, line 86: \<^verbatim>\<open>for (let i = 1; i < 255; i++)\<close>.\<close>

function chiLoop :: "nat list \<Rightarrow> nat list \<Rightarrow> nat \<Rightarrow> real \<Rightarrow> error + real" where
  "chiLoop observedFrequencies totalPairsPerCategory i chiSquared =
     (if i < 255
      then (case chiStep observedFrequencies totalPairsPerCategory i chiSquared of
              Inl e \<Rightarrow> Inl e
            | Inr chiSquared' \<Rightarrow> chiLoop observedFrequencies totalPairsPerCategory (i + 1) chiSquared')
      else Inr chiSquared)"
  by pat_completeness auto
termination
  by (relation "measure (\<lambda>(observedFrequencies, totalPairsPerCategory, i, chiSquared). 255 - i)") auto

text \<open>
  Line 113: \<^verbatim>\<open>observedFrequencies.filter((_, i) => totalPairsPerCategory[i] > 0).length\<close>.
  The callback runs for every index of \<open>observedFrequencies\<close> and reads
  \<open>totalPairsPerCategory\<close> there.
\<close>

definition degreesOfFreedom :: "nat list \<Rightarrow> nat list \<Rightarrow> error + nat" where
  "degreesOfFreedom observedFrequencies totalPairsPerCategory =
     (if length observedFrequencies \<le> length totalPairsPerCategory
      then Inr (length (filter (\<lambda>i. totalPairsPerCategory ! i > 0)
                          [0 ..< length observedFrequencies]))
      else Inl OutOfBounds)"

text \<open>Lines 83-124 of \<^verbatim>\<open>analyzeLSB\<close>: from the two histograms to the probability.\<close>

definition estimate :: "nat list \<Rightarrow> nat list \<Rightarrow> error + real" where
  "estimate observedFrequencies totalPairsPerCategory =
     (case chiLoop observedFrequencies totalPairsPerCategory 1 0 of
        Inl e \<Rightarrow> Inl e
      | Inr chiSquared \<Rightarrow>
          (case degreesOfFreedom observedFrequencies totalPairsPerCategory of
             Inl e \<Rightarrow> Inl e
           | Inr dof \<Rightarrow>
               if dof = 0 then Inr 0
               else (case fdiv chiSquared (real dof) of
                       Inl e \<Rightarrow> Inl e
                     | Inr normalizedChi \<Rightarrow> Inr (chiSquareCdf normalizedChi))))"

text \<open>\<^verbatim>\<open>analyzeLSB\<close>, lines 53-125.\<close>

definition analyzeLSB :: "byte list \<Rightarrow> error + real" where
  "analyzeLSB pixelData =
     (case observedFrequenciesOf pixelData of
        Inl e \<Rightarrow> Inl e
      | Inr obs \<Rightarrow>
          (case totalPairsPerCategoryOf pixelData of
             Inl e \<Rightarrow> Inl e
           | Inr tot \<Rightarrow> estimate obs tot))"

subsection \<open>The classifier\<close>

text \<open>The status chosen by \<^verbatim>\<open>handleAnalyzeClick\<close>, \<^verbatim>\<open>src/App.tsx\<close> lines 73-82.\<close>

definition classify :: "real \<Rightarrow> ResultStatus" where
  "classify probability =
     (if probability > 0.95 then Suspicious
      else if probability > 0.10 then Indeterminate
      else Clean)"

subsection \<open>Closed forms used in the proofs\<close>

text \<open>
  The term that one round of the third loop adds, the sum of the loop, and the count of
  line 113 for histograms of length 255. Lemmas \<open>chiLoop_eq\<close> and
  \<open>degreesOfFreedom_eq\<close> show that the code computes them.
\<close>

definition chiTerm :: "nat list \<Rightarrow> nat list \<Rightarrow> nat \<Rightarrow> real" where
  "chiTerm obs tot k =
     (if tot ! k > 0
      then (real (obs ! k) - real (tot ! k) / 2) * (real (obs ! k) - real (tot ! k) / 2)
           / (real (tot ! k) / 2)
      else 0)"

definition chiSum :: "nat list \<Rightarrow> nat list \<Rightarrow> real" where
  "chiSum obs tot = (\<Sum>k = 1..<255. chiTerm obs tot k)"

definition dofCount :: "nat list \<Rightarrow> nat" where
  "dofCount tot = length (filter (\<lambda>i. tot ! i > 0) [0..<255])"

text \<open>The polynomial of line 20, as a function of \<open>t\<close>.\<close>

definition erfPoly :: "real \<Rightarrow> real" where
  "erfPoly t = (((((1.061405429 * t + - 1.453152027) * t) + 1.421413741) * t + - 0.284496736) * t
                 + 0.254829592) * t"

section \<open>Properties\<close>

subsection \<open>The loops never leave their arrays\<close>

text \<open>The loop equations are used one unfolding at a time.\<close>

declare observedLoop.simps [simp del] totalLoop.simps [simp del] chiLoop.simps [simp del]
  pairIndices.simps [simp del]

lemma observedStep_ok:
  assumes "i < length d" "j < length d" "length obs = 255"
  shows "\<exists>obs'. observedStep d i j obs = Inr obs' \<and> length obs' = 255 \<and> obs' ! 0 = obs ! 0"
  using assms by (simp add: observedStep_def rd_def incr_def Let_def)

lemma totalStep_ok:
  assumes "i < length d" "length tot = 255"
  shows "\<exists>tot'. totalStep d i tot = Inr tot' \<and> length tot' = 255 \<and> tot' ! 0 = tot ! 0"
  using assms by (simp add: totalStep_def rd_def incr_def Let_def)

lemma observedLoop_ok:
  "length obs = 255 \<Longrightarrow>
   \<exists>obs'. observedLoop d i obs = Inr obs' \<and> length obs' = 255 \<and> obs' ! 0 = obs ! 0"
proof (induction d i obs rule: observedLoop.induct)
  case (1 d i obs)
  show ?case
  proof (cases "int i < int (length d) - 4")
    case True
    then have "i < length d" "i + 4 < length d" by auto
    from observedStep_ok [OF this "1.prems"] obtain obs1
      where s: "observedStep d i (i + 4) obs = Inr obs1" "length obs1 = 255" "obs1 ! 0 = obs ! 0"
      by blast
    from "1.IH" [OF True s(1) s(2)] obtain obs'
      where "observedLoop d (i + 8) obs1 = Inr obs'" "length obs' = 255" "obs' ! 0 = obs1 ! 0"
      by blast
    with True s show ?thesis
      by (simp add: observedLoop.simps [of d i obs])
  next
    case False
    with "1.prems" show ?thesis
      by (simp add: observedLoop.simps [of d i obs])
  qed
qed

lemma totalLoop_ok:
  "length tot = 255 \<Longrightarrow>
   \<exists>tot'. totalLoop d i tot = Inr tot' \<and> length tot' = 255 \<and> tot' ! 0 = tot ! 0"
proof (induction d i tot rule: totalLoop.induct)
  case (1 d i tot)
  show ?case
  proof (cases "int i < int (length d) - 4")
    case True
    then have "i < length d" by auto
    from totalStep_ok [OF this "1.prems"] obtain tot1
      where s: "totalStep d i tot = Inr tot1" "length tot1 = 255" "tot1 ! 0 = tot ! 0"
      by blast
    from "1.IH" [OF True s(1) s(2)] obtain tot'
      where "totalLoop d (i + 8) tot1 = Inr tot'" "length tot' = 255" "tot' ! 0 = tot1 ! 0"
      by blast
    with True s show ?thesis
      by (simp add: totalLoop.simps [of d i tot])
  next
    case False
    with "1.prems" show ?thesis
      by (simp add: totalLoop.simps [of d i tot])
  qed
qed

lemma observedLoop_pairs:
  "observedLoop d i obs = runPairs d (pairIndices (length d) i) obs"
proof (induction d i obs rule: observedLoop.induct)
  case (1 d i obs)
  show ?case
  proof (cases "int i < int (length d) - 4")
    case True
    with "1.IH" show ?thesis
      by (simp add: observedLoop.simps [of d i obs] pairIndices.simps [of "length d" i]
          split: sum.splits)
  next
    case False
    then show ?thesis
      by (simp add: observedLoop.simps [of d i obs] pairIndices.simps [of "length d" i])
  qed
qed

lemma pairIndices_members:
  "(a, b) \<in> set (pairIndices len i) \<Longrightarrow> b = a + 4 \<and> b < len \<and> i \<le> a \<and> (a - i) mod 8 = 0"
proof (induction len i rule: pairIndices.induct)
  case (1 len i)
  show ?case
  proof (cases "int i < int len - 4")
    case True
    with "1.prems" have "(a, b) = (i, i + 4) \<or> (a, b) \<in> set (pairIndices len (i + 8))"
      by (simp add: pairIndices.simps [of len i])
    then show ?thesis
    proof
      assume "(a, b) = (i, i + 4)"
      with True show ?thesis by auto
    next
      assume "(a, b) \<in> set (pairIndices len (i + 8))"
      from "1.IH" [OF True this] show ?thesis
        by (auto simp: mod_simps) presburger
    qed
  next
    case False
    with "1.prems" show ?thesis
      by (simp add: pairIndices.simps [of len i])
  qed
qed

subsection \<open>What the estimator computes\<close>

lemma chiStep_eq:
  "k < length tot \<Longrightarrow> k < length obs \<Longrightarrow>
   chiStep obs tot k chi = Inr (chi + chiTerm obs tot k)"
  by (simp add: chiStep_def rd_def fdiv_def chiTerm_def Let_def)

lemma chiLoop_eq:
  "255 \<le> length obs \<Longrightarrow> 255 \<le> length tot \<Longrightarrow>
   chiLoop obs tot i chi = Inr (chi + (\<Sum>k = i..<255. chiTerm obs tot k))"
proof (induction obs tot i chi rule: chiLoop.induct)
  case (1 obs tot i chi)
  show ?case
  proof (cases "i < 255")
    case True
    with "1.prems" have s: "chiStep obs tot i chi = Inr (chi + chiTerm obs tot i)"
      by (simp add: chiStep_eq)
    from "1.IH" [OF True s "1.prems"] True s show ?thesis
      by (simp add: chiLoop.simps [of obs tot i chi] sum.atLeast_Suc_lessThan add.assoc)
  next
    case False
    then show ?thesis
      by (simp add: chiLoop.simps [of obs tot i chi])
  qed
qed

lemma degreesOfFreedom_eq:
  "length obs = 255 \<Longrightarrow> length tot = 255 \<Longrightarrow> degreesOfFreedom obs tot = Inr (dofCount tot)"
  by (simp add: degreesOfFreedom_def dofCount_def)

lemma estimate_eq:
  assumes "length obs = 255" "length tot = 255"
  shows "estimate obs tot =
         Inr (if dofCount tot = 0 then 0
              else chiSquareCdf (chiSum obs tot / real (dofCount tot)))"
  using assms
  by (simp add: estimate_def chiLoop_eq degreesOfFreedom_eq fdiv_def chiSum_def)

lemma chiTerm_nonneg: "0 \<le> chiTerm obs tot k"
  by (simp add: chiTerm_def)

lemma chiSum_nonneg: "0 \<le> chiSum obs tot"
  unfolding chiSum_def by (rule sum_nonneg) (simp add: chiTerm_nonneg)

lemma analyzeLSB_eq:
  "\<exists>obs tot. observedFrequenciesOf d = Inr obs \<and> totalPairsPerCategoryOf d = Inr tot \<and>
     length obs = 255 \<and> length tot = 255 \<and> obs ! 0 = 0 \<and> tot ! 0 = 0 \<and>
     analyzeLSB d = Inr (if dofCount tot = 0 then 0
                         else chiSquareCdf (chiSum obs tot / real (dofCount tot)))"
proof -
  obtain obs where o: "observedLoop d 0 (replicate 255 0) = Inr obs" "length obs = 255"
    "obs ! 0 = (replicate 255 (0::nat)) ! 0"
    using observedLoop_ok [of "replicate 255 0" d 0] by auto
  obtain tot where t: "totalLoop d 0 (replicate 255 0) = Inr tot" "length tot = 255"
    "tot ! 0 = (replicate 255 (0::nat)) ! 0"
    using totalLoop_ok [of "replicate 255 0" d 0] by auto
  from o t show ?thesis
    by (simp add: analyzeLSB_def observedFrequenciesOf_def totalPairsPerCategoryOf_def estimate_eq)
qed

subsection \<open>The error function on non-negative arguments\<close>

text \<open>
  For \<open>x \<ge> 0\<close> the result is 1 minus the polynomial at \<open>t = 1 / (1 + p * x)\<close> times
  \<open>exp (- x\<^sup>2)\<close>. The polynomial is non-decreasing on \<open>[0, 1]\<close> (its derivative is a
  sum of squares plus a positive rest there), so it stays between its values 0 at 0 and
  0.999999999 at 1.
\<close>

lemma erf_nonneg_arg:
  "0 \<le> x \<Longrightarrow> erf x = 1 - erfPoly (1 / (1 + 0.3275911 * x)) * exp (- (x * x))"
  by (simp add: erf_def erfPoly_def Let_def)

lemma erf_divisor_pos: "0 < 1 + 0.3275911 * \<bar>x :: real\<bar>"
proof -
  have "0 \<le> 0.3275911 * \<bar>x\<bar>" by simp
  then show ?thesis by linarith
qed

lemma quartic_linear_part:
  fixes a b c t :: real
  assumes "0 \<le> t" "t \<le> 1" "0 \<le> a - 1.1 * b + 0.3025 * c" "0 \<le> c - 0.2 * t + 0.01" "0 \<le> b"
  shows "0 \<le> 5 * 1.061405429 * a - 4 * 1.453152027 * b + 3 * 1.421413741 * c
             - 2 * 0.284496736 * t + 0.254829592"
  using assms by simp

lemma erfPoly_deriv_nonneg:
  fixes t :: real
  assumes "0 \<le> t" "t \<le> 1"
  shows "0 \<le> 5 * 1.061405429 * t^4 - 4 * 1.453152027 * t^3 + 3 * 1.421413741 * t^2
             - 2 * 0.284496736 * t + 0.254829592"
proof -
  have f1: "0 \<le> (t * t - 0.55 * t)^2" by simp
  have f2: "0 \<le> (t - 0.1)^2" by simp
  have f3: "0 \<le> t^3" using assms by simp
  have e1: "(t * t - 0.55 * t)^2 = t^4 - 1.1 * t^3 + 0.3025 * t^2"
    by (simp add: power2_eq_square power4_eq_xxxx power3_eq_cube algebra_simps)
  have e2: "(t - 0.1)^2 = t^2 - 0.2 * t + 0.01"
    by (simp add: power2_eq_square algebra_simps)
  have g1: "0 \<le> t^4 - 1.1 * t^3 + 0.3025 * t^2" using f1 unfolding e1 .
  have g2: "0 \<le> t^2 - 0.2 * t + 0.01" using f2 unfolding e2 .
  show ?thesis by (rule quartic_linear_part [OF assms g1 g2 f3])
qed

lemma erfPoly_expand:
  "erfPoly = (\<lambda>t. 1.061405429 * t^5 - 1.453152027 * t^4 + 1.421413741 * t^3
                  - 0.284496736 * t^2 + 0.254829592 * t)"
  by (rule ext) (simp add: erfPoly_def power2_eq_square power4_eq_xxxx power3_eq_cube
      power_Suc numeral_eq_Suc algebra_simps)

lemma erfPoly_DERIV:
  "DERIV erfPoly t :> 5 * 1.061405429 * t^4 - 4 * 1.453152027 * t^3 + 3 * 1.421413741 * t^2
             - 2 * 0.284496736 * t + 0.254829592"
  unfolding erfPoly_expand
  by (rule derivative_eq_intros refl | simp)+

lemma erfPoly_mono:
  assumes "0 \<le> s" "s \<le> t" "t \<le> 1"
  shows "erfPoly s \<le> erfPoly t"
proof (rule DERIV_nonneg_imp_nondecreasing [OF assms(2)])
  fix x assume "s \<le> x" "x \<le> t"
  with assms have "0 \<le> x" "x \<le> 1" by auto
  from erfPoly_deriv_nonneg [OF this] erfPoly_DERIV [of x]
  show "\<exists>y. DERIV erfPoly x :> y \<and> 0 \<le> y" by blast
qed

lemma erfPoly_0: "erfPoly 0 = 0"
  by (simp add: erfPoly_def)

lemma erfPoly_1: "erfPoly 1 = 1 - 1 / 1000000000"
  by (simp add: erfPoly_def)

lemma erfPoly_bounds:
  assumes "0 \<le> t" "t \<le> 1"
  shows "0 \<le> erfPoly t" "erfPoly t \<le> 1 - 1 / 1000000000"
  using erfPoly_mono [of 0 t] erfPoly_mono [of t 1] assms
  by (simp_all add: erfPoly_0 erfPoly_1)

lemma erf_arg_range:
  fixes x :: real
  assumes "0 \<le> x"
  shows "0 \<le> 1 / (1 + 0.3275911 * x)" "1 / (1 + 0.3275911 * x) \<le> 1"
proof -
  have "1 \<le> 1 + 0.3275911 * x" using assms by simp
  then show "0 \<le> 1 / (1 + 0.3275911 * x)" "1 / (1 + 0.3275911 * x) \<le> 1"
    by simp_all
qed

lemma erf_bounds:
  assumes "0 \<le> x"
  shows "1 / 1000000000 \<le> erf x" "erf x \<le> 1"
proof -
  let ?g = "erfPoly (1 / (1 + 0.3275911 * x))"
  let ?e = "exp (- (x * x))"
  have g: "0 \<le> ?g" "?g \<le> 1 - 1 / 1000000000"
    using erfPoly_bounds [OF erf_arg_range [OF assms]] by simp_all
  have e: "0 \<le> ?e" "?e \<le> 1" by simp_all
  have "?g * ?e \<le> ?g * 1" by (rule mult_left_mono [OF e(2) g(1)])
  then have "?g * ?e \<le> 1 - 1 / 1000000000" using g(2) by simp
  then show "1 / 1000000000 \<le> erf x" by (simp add: erf_nonneg_arg [OF assms])
  have "0 \<le> ?g * ?e" using g(1) e(1) by (rule mult_nonneg_nonneg)
  then show "erf x \<le> 1" by (simp add: erf_nonneg_arg [OF assms])
qed

lemma erf_ge:
  assumes "0 \<le> x"
  shows "1 - exp (- (x * x)) \<le> erf x"
proof -
  let ?g = "erfPoly (1 / (1 + 0.3275911 * x))"
  have "?g \<le> 1" using erfPoly_bounds(2) [OF erf_arg_range [OF assms]] by simp
  then have "?g * exp (- (x * x)) \<le> 1 * exp (- (x * x))"
    by (intro mult_right_mono) simp_all
  then show ?thesis by (simp add: erf_nonneg_arg [OF assms])
qed

lemma chiSquareCdf_bounds: "0 \<le> chiSquareCdf x" "chiSquareCdf x \<le> 1"
proof -
  have "0 \<le> sqrt (x / 2)" if "\<not> x < 0" using that by simp
  from erf_bounds [OF this] show "0 \<le> chiSquareCdf x" "chiSquareCdf x \<le> 1"
    by (auto simp: chiSquareCdf_def)
qed

subsection \<open>Buffers that agree on the first channel\<close>

lemma observedStep_agree:
  assumes "length d = length d'" "i < length d \<Longrightarrow> d ! i = d' ! i" "j < length d \<Longrightarrow> d ! j = d' ! j"
  shows "observedStep d i j obs = observedStep d' i j obs"
  using assms by (simp add: observedStep_def rd_def)

lemma totalStep_agree:
  assumes "length d = length d'" "i < length d \<Longrightarrow> d ! i = d' ! i"
  shows "totalStep d i tot = totalStep d' i tot"
  using assms by (simp add: totalStep_def rd_def)

lemma observedLoop_agree:
  "length d = length d' \<Longrightarrow> \<forall>j<length d. 4 dvd j \<longrightarrow> d ! j = d' ! j \<Longrightarrow> 4 dvd i \<Longrightarrow>
   observedLoop d i obs = observedLoop d' i obs"
proof (induction d i obs rule: observedLoop.induct)
  case (1 d i obs)
  have d4: "4 dvd i + 4" "4 dvd i + 8" using "1.prems"(3) by simp_all
  have s: "observedStep d i (i + 4) obs = observedStep d' i (i + 4) obs"
    by (rule observedStep_agree) (use "1.prems" d4 in auto)
  show ?case
  proof (cases "int i < int (length d) - 4")
    case True
    show ?thesis
    proof (cases "observedStep d i (i + 4) obs")
      case (Inl e)
      then have "observedStep d' i (i + 4) obs = Inl e" using s by simp
      with True Inl "1.prems"(1) show ?thesis
        by (simp add: observedLoop.simps [of d i obs] observedLoop.simps [of d' i obs])
    next
      case (Inr obs1)
      then have "observedStep d' i (i + 4) obs = Inr obs1" using s by simp
      with "1.IH" [OF True Inr "1.prems"(1,2) d4(2)] True Inr "1.prems"(1) show ?thesis
        by (simp add: observedLoop.simps [of d i obs] observedLoop.simps [of d' i obs])
    qed
  next
    case False
    with "1.prems"(1) show ?thesis
      by (simp add: observedLoop.simps [of d i obs] observedLoop.simps [of d' i obs])
  qed
qed

lemma totalLoop_agree:
  "length d = length d' \<Longrightarrow> \<forall>j<length d. 4 dvd j \<longrightarrow> d ! j = d' ! j \<Longrightarrow> 4 dvd i \<Longrightarrow>
   totalLoop d i tot = totalLoop d' i tot"
proof (induction d i tot rule: totalLoop.induct)
  case (1 d i tot)
  have d4: "4 dvd i + 8" using "1.prems"(3) by simp
  have s: "totalStep d i tot = totalStep d' i tot"
    by (rule totalStep_agree) (use "1.prems" in auto)
  show ?case
  proof (cases "int i < int (length d) - 4")
    case True
    show ?thesis
    proof (cases "totalStep d i tot")
      case (Inl e)
      then have "totalStep d' i tot = Inl e" using s by simp
      with True Inl "1.prems"(1) show ?thesis
        by (simp add: totalLoop.simps [of d i tot] totalLoop.simps [of d' i tot])
    next
      case (Inr tot1)
      then have "totalStep d' i tot = Inr tot1" using s by simp
      with "1.IH" [OF True Inr "1.prems"(1,2) d4] True Inr "1.prems"(1) show ?thesis
        by (simp add: totalLoop.simps [of d i tot] totalLoop.simps [of d' i tot])
    qed
  next
    case False
    with "1.prems"(1) show ?thesis
      by (simp add: totalLoop.simps [of d i tot] totalLoop.simps [of d' i tot])
  qed
qed

subsection \<open>A buffer whose first channel is constant\<close>

lemma totalLoop_uniform:
  "\<forall>j<length d. 4 dvd j \<longrightarrow> unat (d ! j) = v \<Longrightarrow> 0 < v \<Longrightarrow> v < 255 \<Longrightarrow> 4 dvd i \<Longrightarrow>
   length tot = 255 \<Longrightarrow>
   totalLoop d i tot = Inr (tot[v := tot ! v + length (pairIndices (length d) i)])"
proof (induction d i tot rule: totalLoop.induct)
  case (1 d i tot)
  show ?case
  proof (cases "int i < int (length d) - 4")
    case True
    then have "i < length d" by auto
    with "1.prems" have s: "totalStep d i tot = Inr (tot[v := tot ! v + 1])"
      by (simp add: totalStep_def rd_def incr_def)
    have "4 dvd i + 8" using "1.prems"(4) by simp
    from "1.IH" [OF True s "1.prems"(1-3) this] "1.prems"(3,5) True s show ?thesis
      by (simp add: totalLoop.simps [of d i tot] pairIndices.simps [of "length d" i])
  next
    case False
    then show ?thesis
      by (simp add: totalLoop.simps [of d i tot] pairIndices.simps [of "length d" i])
  qed
qed

lemma observedLoop_uniform:
  "\<forall>j<length d. 4 dvd j \<longrightarrow> unat (d ! j) = v \<Longrightarrow> 4 dvd i \<Longrightarrow>
   observedLoop d i obs = Inr obs"
proof (induction d i obs rule: observedLoop.induct)
  case (1 d i obs)
  show ?case
  proof (cases "int i < int (length d) - 4")
    case True
    then have "i < length d" "i + 4 < length d" by auto
    moreover have "4 dvd i + 4" using "1.prems"(2) by simp
    ultimately have s: "observedStep d i (i + 4) obs = Inr obs"
      using "1.prems" by (simp add: observedStep_def rd_def)
    have "4 dvd i + 8" using "1.prems"(2) by simp
    from "1.IH" [OF True s "1.prems"(1) this] True s show ?thesis
      by (simp add: observedLoop.simps [of d i obs])
  next
    case False
    then show ?thesis
      by (simp add: observedLoop.simps [of d i obs])
  qed
qed

lemma dofCount_single:
  assumes "v < 255" "0 < n"
  shows "dofCount ((replicate 255 0)[v := n]) = 1"
proof -
  have "{i. i < length [0..<255] \<and> 0 < (replicate 255 (0::nat))[v := n] ! ([0..<255] ! i)} = {v}"
    using assms by (auto simp: nth_list_update)
  then show ?thesis
    unfolding dofCount_def length_filter_conv_card by simp
qed

lemma chiSum_single:
  assumes "0 < v" "v < 255" "0 < n"
  shows "chiSum (replicate 255 0) ((replicate 255 0)[v := n]) = real n / 2"
proof -
  have t: "chiTerm (replicate 255 0) ((replicate 255 0)[v := n]) k
           = (if k = v then real n / 2 else 0)" if "k \<in> {1..<255}" for k
    using that assms by (simp add: chiTerm_def nth_list_update)
  have "chiSum (replicate 255 0) ((replicate 255 0)[v := n])
        = (\<Sum>k = 1..<255. if k = v then real n / 2 else 0)"
    unfolding chiSum_def by (rule sum.cong) (simp_all add: t)
  also have "\<dots> = real n / 2" using assms by simp
  finally show ?thesis .
qed

lemma exp_minus_quarter: "exp (- (1 / 4)) \<le> (4 / 5 :: real)"
proof -
  have "1 + 1 / 4 \<le> exp (1 / 4 :: real)" by (rule exp_ge_add_one_self)
  then have "1 / exp (1 / 4 :: real) \<le> 1 / (1 + 1 / 4)"
    by (intro divide_left_mono) simp_all
  then show ?thesis by (simp add: exp_minus inverse_eq_divide)
qed

lemma exp_minus_four: "exp (- 4) < (1 / 20 :: real)"
proof -
  have "1 + 2 + 2\<^sup>2 / 2 \<le> exp (2 :: real)" by (rule exp_lower_Taylor_quadratic) simp
  then have e2: "5 \<le> exp (2 :: real)" by simp
  have "exp (4 :: real) = exp 2 * exp 2" by (simp flip: exp_add)
  with e2 have "25 \<le> exp (4 :: real)"
    using mult_mono [of 5 "exp (2::real)" 5 "exp 2"] by simp
  then have "1 / exp (4 :: real) \<le> 1 / 25" by (intro divide_left_mono) simp_all
  then show ?thesis by (simp add: exp_minus inverse_eq_divide)
qed

lemma chiSquareCdf_ge:
  assumes "0 \<le> x"
  shows "1 - exp (- (x / 2)) \<le> chiSquareCdf x"
proof -
  have "0 \<le> sqrt (x / 2)" using assms by simp
  from erf_ge [OF this] assms show ?thesis by (simp add: chiSquareCdf_def)
qed

lemma chiSquareCdf_half_pairs:
  fixes n :: nat
  shows "1 \<le> n \<Longrightarrow> 1 / 10 < chiSquareCdf (real n / 2)"
    and "16 \<le> n \<Longrightarrow> 95 / 100 < chiSquareCdf (real n / 2)"
proof -
  have g: "1 - exp (- (real n / 2 / 2)) \<le> chiSquareCdf (real n / 2)"
    by (rule chiSquareCdf_ge) simp
  {
    assume "1 \<le> n"
    then have "exp (- (real n / 2 / 2)) \<le> exp (- (1 / 4))" by simp
    with exp_minus_quarter g show "1 / 10 < chiSquareCdf (real n / 2)" by linarith
  }
  {
    assume "16 \<le> n"
    then have "exp (- (real n / 2 / 2)) \<le> exp (- 4)" by simp
    with exp_minus_four g show "95 / 100 < chiSquareCdf (real n / 2)" by linarith
  }
qed

lemma analyzeLSB_uniform:
  assumes "\<forall>j<length d. 4 dvd j \<longrightarrow> unat (d ! j) = v" "0 < v" "v < 255"
  defines "n \<equiv> length (pairIndices (length d) 0)"
  shows "observedFrequenciesOf d = Inr (replicate 255 0)"
    and "totalPairsPerCategoryOf d = Inr ((replicate 255 0)[v := n])"
    and "analyzeLSB d = Inr (if n = 0 then 0 else chiSquareCdf (real n / 2))"
proof -
  show o: "observedFrequenciesOf d = Inr (replicate 255 0)"
    unfolding observedFrequenciesOf_def by (rule observedLoop_uniform [OF assms(1)]) simp
  have "totalLoop d 0 (replicate 255 0)
        = Inr ((replicate 255 0)[v := replicate 255 0 ! v + length (pairIndices (length d) 0)])"
    by (rule totalLoop_uniform [OF assms(1-3)]) simp_all
  then show t: "totalPairsPerCategoryOf d = Inr ((replicate 255 0)[v := n])"
    using assms(3) by (simp add: totalPairsPerCategoryOf_def n_def)
  show "analyzeLSB d = Inr (if n = 0 then 0 else chiSquareCdf (real n / 2))"
  proof (cases "n = 0")
    case True
    then have "(replicate 255 (0::nat))[v := n] = replicate 255 0"
      by (simp add: list_update_same_conv assms(3))
    with True o t show ?thesis
      by (simp add: analyzeLSB_def estimate_eq dofCount_def)
  next
    case False
    then have "0 < n" by simp
    note c = dofCount_single [OF assms(3) this] chiSum_single [OF assms(2,3) this]
    from False show ?thesis by (simp add: analyzeLSB_def o t estimate_eq c)
  qed
qed

section \<open>The claims\<close>

subsection \<open>C1: a buffer whose first channel is constant\<close>

text \<open>
  C1 says that a buffer whose first-channel bytes all equal one value \<open>v\<close> with
  \<open>0 < v < 255\<close> gets a low probability and the status Clean. No second member is
  greater than the first, so the observed count is 0 where half of the pairs are expected:
  the deviation is the largest possible. For 32 pixels of first channel 100 (16 pairs)
  the statistic is 8 and the status is Suspicious.
\<close>

theorem uniform_buffer_is_suspicious:
  "analyzeLSB (replicate 128 100) = Inr (chiSquareCdf 8) \<and>
   classify (chiSquareCdf 8) = Suspicious"
proof -
  have h: "\<forall>j<length (replicate 128 (100::byte)). 4 dvd j \<longrightarrow> unat (replicate 128 (100::byte) ! j) = 100"
    by simp
  have n: "numPairs (replicate 128 100) = 16" by code_simp
  have "analyzeLSB (replicate 128 100) = Inr (chiSquareCdf 8)"
    using analyzeLSB_uniform(3) [OF h, folded numPairs_def] by (simp add: n)
  moreover have "classify (chiSquareCdf 8) = Suspicious"
    using chiSquareCdf_half_pairs(2) [of 16] by (simp add: classify_def)
  ultimately show ?thesis by simp
qed

text \<open>
  C1 as amended: for such a buffer with \<open>n\<close> pairs scanned, the entry \<open>v\<close> of the total
  histogram is \<open>n\<close> and the entry \<open>v\<close> of the observed histogram is 0; the probability
  is 0 when \<open>n = 0\<close> and \<open>chiSquareCdf (n / 2)\<close> otherwise, which is above 0.10 (status
  not Clean) for every \<open>n \<ge> 1\<close> and above 0.95 (status Suspicious) for every
  \<open>n \<ge> 16\<close>.
\<close>

theorem uniform_buffer_result:
  assumes "\<forall>j<length pixelData. 4 dvd j \<longrightarrow> unat (pixelData ! j) = v" "0 < v" "v < 255"
  shows "(\<exists>obs. observedFrequenciesOf pixelData = Inr obs \<and> obs ! v = 0) \<and>
    (\<exists>tot. totalPairsPerCategoryOf pixelData = Inr tot \<and> tot ! v = numPairs pixelData) \<and>
    analyzeLSB pixelData
      = Inr (if numPairs pixelData = 0 then 0 else chiSquareCdf (real (numPairs pixelData) / 2)) \<and>
    (1 \<le> numPairs pixelData \<longrightarrow> classify (chiSquareCdf (real (numPairs pixelData) / 2)) \<noteq> Clean) \<and>
    (16 \<le> numPairs pixelData \<longrightarrow>
       classify (chiSquareCdf (real (numPairs pixelData) / 2)) = Suspicious)"
proof -
  note u = analyzeLSB_uniform [OF assms, folded numPairs_def]
  have "1 \<le> numPairs pixelData \<longrightarrow> classify (chiSquareCdf (real (numPairs pixelData) / 2)) \<noteq> Clean"
    using chiSquareCdf_half_pairs(1) [of "numPairs pixelData"] by (simp add: classify_def)
  moreover have "16 \<le> numPairs pixelData \<longrightarrow>
       classify (chiSquareCdf (real (numPairs pixelData) / 2)) = Suspicious"
    using chiSquareCdf_half_pairs(2) [of "numPairs pixelData"] by (simp add: classify_def)
  ultimately show ?thesis using u assms(3) by simp
qed

theorem uniform_buffer_result_witness:
  "analyzeLSB (replicate 8 100) = Inr (chiSquareCdf (1 / 2)) \<and>
   classify (chiSquareCdf (1 / 2)) \<noteq> Clean"
proof -
  have h: "\<forall>j<length (replicate 8 (100::byte)). 4 dvd j \<longrightarrow> unat (replicate 8 (100::byte) ! j) = 100"
    by simp
  have n: "numPairs (replicate 8 100) = 1" by code_simp
  from uniform_buffer_result [OF h] show ?thesis by (simp add: n)
qed

subsection \<open>C2: which pixels form a pair\<close>

text \<open>
  C2 says that every pair of the first loop is made of pixel \<open>k\<close> and pixel \<open>k + 2\<close>.
  The loop reads \<open>pixelData[i]\<close> and \<open>pixelData[i + 4]\<close>, which are the first channels of
  two neighbouring pixels, and moves on by 8 bytes: the pairs are the pixels
  \<open>(0, 1), (2, 3), \<dots>\<close>. On a buffer of three pixels with first channels 100, 200 and 50
  the only pair is \<open>(0, 1)\<close>, and category 100 is counted because 200 is greater than
  100; with pixel 2 as the second member (50) it would not be.
\<close>

theorem pair_is_not_two_pixels_apart:
  "pixelPairs (length [100, 0, 0, 0, 200, 0, 0, 0, 50, 0, 0, 0 :: byte]) = [(0, 1)] \<and>
   observedFrequenciesOf [100, 0, 0, 0, 200, 0, 0, 0, 50, 0, 0, 0] = Inr ((replicate 255 0)[100 := 1])"
  by code_simp

text \<open>
  C2 as amended: for every buffer, every pair examined by the first loop consists of the
  first channel of a pixel \<open>k\<close> with even index and of the next pixel \<open>k + 1\<close>, and the
  first histogram is the run of the loop body over these pairs.
\<close>

theorem pairs_are_adjacent_pixels:
  assumes "(k, k') \<in> set (pixelPairs (length pixelData))"
  shows "k' = k + 1 \<and> even k \<and>
         observedFrequenciesOf pixelData
           = runPairs pixelData (pairIndices (length pixelData) 0) (replicate 255 0)"
proof -
  from assms obtain a b where ab: "(a, b) \<in> set (pairIndices (length pixelData) 0)"
    "k = a div 4" "k' = b div 4"
    by (auto simp: pixelPairs_def pixelOf_def)
  from pairIndices_members [OF ab(1)] have "b = a + 4" "a mod 8 = 0" by simp_all
  then have "k' = k + 1" "even k" using ab(2,3) by presburger+
  then show ?thesis
    by (simp add: observedFrequenciesOf_def observedLoop_pairs)
qed

theorem pairs_are_adjacent_pixels_witness:
  "(0, 1) \<in> set (pixelPairs (length [100, 0, 0, 0, 200, 0, 0, 0, 50, 0, 0, 0 :: byte])) \<and>
   (1::nat) = 0 + 1 \<and> even (0::nat) \<and>
   observedFrequenciesOf [100, 0, 0, 0, 200, 0, 0, 0, 50, 0, 0, 0]
     = runPairs [100, 0, 0, 0, 200, 0, 0, 0, 50, 0, 0, 0]
         (pairIndices (length [100, 0, 0, 0, 200, 0, 0, 0, 50, 0, 0, 0 :: byte]) 0) (replicate 255 0)"
proof -
  have m: "(0, 1) \<in> set (pixelPairs (length [100, 0, 0, 0, 200, 0, 0, 0, 50, 0, 0, 0 :: byte]))"
    by code_simp
  from pairs_are_adjacent_pixels [OF m] m show ?thesis by simp
qed

subsection \<open>C3: the status bands\<close>

text \<open>
  C3: the status is Suspicious exactly when \<open>p > 0.95\<close>, Indeterminate exactly when
  \<open>0.10 < p \<le> 0.95\<close> and Clean exactly when \<open>p \<le> 0.10\<close>; the two cut points belong
  to the lower band.
\<close>

theorem classify_bands:
  "(classify p = Suspicious \<longleftrightarrow> p > 0.95) \<and>
   (classify p = Indeterminate \<longleftrightarrow> 0.10 < p \<and> p \<le> 0.95) \<and>
   (classify p = Clean \<longleftrightarrow> p \<le> 0.10) \<and>
   classify 0.95 = Indeterminate \<and> classify 0.9501 = Suspicious \<and>
   classify 0.10 = Clean \<and> classify 0.1001 = Indeterminate"
  by (simp add: classify_def)

theorem classify_bands_witness:
  "classify 0.5 = Indeterminate \<and> classify 0.99 = Suspicious \<and> classify 0.01 = Clean"
  using classify_bands [of "0.5"] classify_bands [of "0.99"] classify_bands [of "0.01"] by simp

subsection \<open>C5: the boundary categories\<close>

text \<open>
  C5 says that the entries at index 0 and at index 254 are never incremented. The guard
  is \<open>p_i < 255 && p_i > 0\<close>: a first member of value 254 passes it. On the two pixels
  with first channels 254 and 255 both histograms count one pair at index 254.
\<close>

theorem index_254_incremented:
  "observedFrequenciesOf [254, 0, 0, 0, 255, 0, 0, 0] = Inr ((replicate 255 0)[254 := 1]) \<and>
   totalPairsPerCategoryOf [254, 0, 0, 0, 255, 0, 0, 0] = Inr ((replicate 255 0)[254 := 1])"
  by code_simp

text \<open>
  C5 as amended: for every buffer, the entry at index 0 of both histograms is never
  incremented and stays zero.
\<close>

theorem index_zero_never_incremented:
  "\<exists>obs tot. observedFrequenciesOf pixelData = Inr obs \<and> totalPairsPerCategoryOf pixelData = Inr tot
     \<and> obs ! 0 = 0 \<and> tot ! 0 = 0"
  using analyzeLSB_eq [of pixelData] by auto

subsection \<open>C6: no category with a pair\<close>

text \<open>
  C6: whenever no category has a pair (the count of line 113 is zero), and so for every
  buffer of fewer than 4 bytes, \<open>analyzeLSB\<close> returns exactly 0, which is classified
  Clean.
\<close>

theorem degenerate_input_is_clean:
  "(\<forall>obs tot. observedFrequenciesOf pixelData = Inr obs \<and>
        totalPairsPerCategoryOf pixelData = Inr tot \<and> degreesOfFreedom obs tot = Inr 0
        \<longrightarrow> analyzeLSB pixelData = Inr 0) \<and>
   (length pixelData < 4 \<longrightarrow> analyzeLSB pixelData = Inr 0) \<and>
   classify 0 = Clean"
proof (intro conjI allI impI)
  fix obs tot
  assume a: "observedFrequenciesOf pixelData = Inr obs \<and>
        totalPairsPerCategoryOf pixelData = Inr tot \<and> degreesOfFreedom obs tot = Inr 0"
  from analyzeLSB_eq [of pixelData] a show "analyzeLSB pixelData = Inr 0"
    by (auto simp: degreesOfFreedom_eq)
next
  assume "length pixelData < 4"
  then show "analyzeLSB pixelData = Inr 0"
    by (simp add: analyzeLSB_def observedFrequenciesOf_def totalPairsPerCategoryOf_def
        observedLoop.simps [of pixelData 0] totalLoop.simps [of pixelData 0]
        estimate_eq dofCount_def)
next
  show "classify 0 = Clean" by (simp add: classify_def)
qed

theorem degenerate_input_is_clean_witness:
  "observedFrequenciesOf [7, 7, 7] = Inr (replicate 255 0) \<and>
   totalPairsPerCategoryOf [7, 7, 7] = Inr (replicate 255 0) \<and>
   degreesOfFreedom (replicate 255 0) (replicate 255 0) = Inr 0 \<and>
   length [7, 7, 7 :: byte] < 4 \<and>
   analyzeLSB [7, 7, 7] = Inr 0 \<and> classify 0 = Clean"
proof -
  have h: "observedFrequenciesOf [7, 7, 7] = Inr (replicate 255 0)"
    "totalPairsPerCategoryOf [7, 7, 7] = Inr (replicate 255 0)"
    "degreesOfFreedom (replicate 255 0) (replicate 255 0) = Inr 0"
    by code_simp+
  have l: "length [7, 7, 7 :: byte] < 4" by simp
  from degenerate_input_is_clean [of "[7, 7, 7]"] h l show ?thesis by blast
qed

subsection \<open>C7: the range of the probability\<close>

text \<open>
  C7: for every buffer the probability returned by \<open>analyzeLSB\<close> lies in \<open>[0, 1]\<close>, and
  so does \<open>chiSquareCdf\<close> of any statistic.
\<close>

theorem analyzeLSB_in_unit_interval:
  "(\<exists>probability. analyzeLSB pixelData = Inr probability \<and> 0 \<le> probability \<and> probability \<le> 1)
   \<and> 0 \<le> chiSquareCdf normalizedChi \<and> chiSquareCdf normalizedChi \<le> 1"
  using analyzeLSB_eq [of pixelData]
  by (auto simp: chiSquareCdf_bounds)

subsection \<open>C8: the symmetry of \<open>erf\<close>\<close>

text \<open>
  C8 says that \<open>erf (- x) = - erf x\<close> for every \<open>x\<close> and that \<open>erf 0 = 0\<close> exactly.
  At 0 the sign is 1, \<open>t\<close> is 1 and the exponential is 1, so the result is 1 minus the
  sum of the five coefficients, which is just below 1: the result is a small positive
  number, and its negation is not the result at \<open>- 0\<close>.
\<close>

theorem erf_zero_not_zero: "erf 0 \<noteq> 0 \<and> erf (- 0) \<noteq> - erf 0"
  by (simp add: erf_def)

text \<open>
  C8 as amended: \<open>erf (- x) = - erf x\<close> for every \<open>x\<close> other than 0; at 0 the result is
  not 0 but a positive number below the error bound \<open>1.5 \<times> 10\<^sup>-\<^sup>7\<close> of the approximation.
\<close>

theorem erf_odd_nonzero:
  "(x \<noteq> 0 \<longrightarrow> erf (- x) = - erf x) \<and> 0 < erf 0 \<and> erf 0 < 15 / 100000000"
  by (simp add: erf_def Let_def)

theorem erf_odd_nonzero_witness: "(1::real) \<noteq> 0 \<and> erf (- 1) = - erf 1"
  using erf_odd_nonzero [of 1] by simp

subsection \<open>C9: only the first channel is read\<close>

text \<open>
  C9: two buffers of the same length that agree at every index divisible by 4 get the
  same result from \<open>analyzeLSB\<close>.
\<close>

theorem analyzeLSB_reads_first_channel_only:
  assumes "length pixelData = length pixelData'"
    and "\<forall>j<length pixelData. 4 dvd j \<longrightarrow> pixelData ! j = pixelData' ! j"
  shows "analyzeLSB pixelData = analyzeLSB pixelData'"
proof -
  have o: "observedFrequenciesOf pixelData = observedFrequenciesOf pixelData'"
    unfolding observedFrequenciesOf_def by (rule observedLoop_agree [OF assms]) simp
  have t: "totalPairsPerCategoryOf pixelData = totalPairsPerCategoryOf pixelData'"
    unfolding totalPairsPerCategoryOf_def by (rule totalLoop_agree [OF assms]) simp
  show ?thesis unfolding analyzeLSB_def o t ..
qed

theorem analyzeLSB_reads_first_channel_only_witness:
  "length [10, 1, 2, 3, 20, 4, 5, 6 :: byte] = length [10, 9, 9, 9, 20, 7, 7, 7 :: byte] \<and>
   [10, 1, 2, 3, 20, 4, 5, 6 :: byte] ! 0 = [10, 9, 9, 9, 20, 7, 7, 7] ! 0 \<and>
   [10, 1, 2, 3, 20, 4, 5, 6 :: byte] ! 4 = [10, 9, 9, 9, 20, 7, 7, 7] ! 4 \<and>
   analyzeLSB [10, 1, 2, 3, 20, 4, 5, 6] = analyzeLSB [10, 9, 9, 9, 20, 7, 7, 7]"
proof -
  have l: "length [10, 1, 2, 3, 20, 4, 5, 6 :: byte] = length [10, 9, 9, 9, 20, 7, 7, 7 :: byte]"
    by simp
  have a: "\<forall>j<length [10, 1, 2, 3, 20, 4, 5, 6 :: byte]. 4 dvd j \<longrightarrow>
       [10, 1, 2, 3, 20, 4, 5, 6 :: byte] ! j = [10, 9, 9, 9, 20, 7, 7, 7] ! j"
  proof (intro allI impI)
    fix j :: nat
    assume "j < length [10, 1, 2, 3, 20, 4, 5, 6 :: byte]" "4 dvd j"
    then have "j = 0 \<or> j = 4" by auto
    then show "[10, 1, 2, 3, 20, 4, 5, 6 :: byte] ! j = [10, 9, 9, 9, 20, 7, 7, 7] ! j"
      by auto
  qed
  from analyzeLSB_reads_first_channel_only [OF l a] show ?thesis by simp
qed

subsection \<open>C10: totality\<close>

text \<open>
  C10: for every buffer, of any length, \<open>analyzeLSB\<close> returns a probability: no read or
  increment leaves its array and no division has a zero divisor.
\<close>

theorem analyzeLSB_total: "\<exists>probability. analyzeLSB pixelData = Inr probability"
  using analyzeLSB_eq [of pixelData] by auto

end
